theory Spec2Isabelle
  imports Main "HOL-Library.Word"
begin

section \<open>The blink controller of \<^verbatim>\<open>Test1_main.c\<close>\<close>

text \<open>
  The program is one \<^verbatim>\<open>main\<close> for a dsPIC33E: hardware bring-up (lines 56-125) followed by
  an endless loop (lines 128-158) whose body is evaluated once per wake of the 1 ms timer.
  The loop body reads one input bit (\<^verbatim>\<open>PORTDbits.RD6\<close>), owns two C variables
  (\<^verbatim>\<open>char button\<close>, \<^verbatim>\<open>int t\<close>) and writes one output bit (\<^verbatim>\<open>LATGbits.LATG11\<close>).
  The tail of the body (\<^verbatim>\<open>Idle(); IFS0bits.T1IF = 0; TMR1 = 0;\<close>) waits for the next timer
  interrupt and acknowledges it; it touches none of the three, so one evaluation of lines
  129-150 is one tick.

  On this target \<^verbatim>\<open>int\<close> is 16 bits wide and \<^verbatim>\<open>char\<close> is 8 bits wide, so \<^verbatim>\<open>t\<close> is a
  \<open>16 word\<close> read as two's complement (\<open>sint\<close>, \<open><s\<close>, \<open>\<le>s\<close>) and \<^verbatim>\<open>button\<close> is an
  \<open>8 word\<close>. A one-bit register field is a \<open>bool\<close>: \<open>True\<close> is the bit value 1.
\<close>

subsection \<open>State\<close>

record controller =
  button :: "8 word"
  t :: "16 word"
  LATG11 :: bool

text \<open>
  Lines 116-123: \<^verbatim>\<open>char button = 0; int t = 0; LATGbits.LATG11 = 0;\<close>
\<close>

definition main_init :: controller where
  "main_init = \<lparr>button = 0, t = 0, LATG11 = False\<rparr>"

subsection \<open>The input line\<close>

text \<open>
  \<^verbatim>\<open>PORTDbits.RD6\<close> is a hardware port register: every evaluation of the expression is a
  read of the pin at that moment. The loop body contains the expression twice (lines 129
  and 131), so the environment of one tick is the pair of values the pin shows at the first
  and at the second read of that tick.
\<close>

type_synonym RD6 = "bool \<times> bool"

text \<open>A line that holds one level for the whole tick.\<close>

definition steady :: "bool \<Rightarrow> RD6" where
  "steady level = (level, level)"

text \<open>
  The button is wired with inverted logic: pressed is the bit value 0. A tick reads the
  button pressed when the pin is low at both reads.
\<close>

definition pressed :: "RD6 \<Rightarrow> bool" where
  "pressed rd = (\<not> fst rd \<and> \<not> snd rd)"

subsection \<open>Lines 129-133: the latch\<close>

text \<open>
  \<^verbatim>\<open>if ((button == 0) && (PORTDbits.RD6 == 1)) { }
  else if ((button == 0) && (PORTDbits.RD6 == 0)) { button = 1; }\<close>

  \<^verbatim>\<open>&&\<close> evaluates its right operand only when the left one holds. The result is the new
  state together with the number of reads of the pin that were performed.
\<close>

definition sample_button :: "RD6 \<Rightarrow> controller \<Rightarrow> controller \<times> nat" where
  "sample_button rd s =
     (if button s = 0 \<and> fst rd then (s, 1)
      else if button s = 0 \<and> \<not> snd rd then (s\<lparr>button := 1\<rparr>, 2)
      else (s, if button s = 0 then 2 else 0))"

definition RD6_reads :: "RD6 \<Rightarrow> controller \<Rightarrow> nat" where
  "RD6_reads rd s = snd (sample_button rd s)"

subsection \<open>Lines 134-150: the timed cycle\<close>

text \<open>
  \<^verbatim>\<open>if (button == 1) {
    if (t == 0) { LATGbits.LATG11 = 1; t++; }
    else if (0 < t && t < 1000) { t++; }
    else if (t >= 1000 && t < 3000) { LATGbits.LATG11 = 0; t++; }
    else { t = 0; LATGbits.LATG11 = 0; }
  }\<close>
\<close>

definition blink :: "controller \<Rightarrow> controller" where
  "blink s =
     (if button s = 1 then
        (if t s = 0 then s\<lparr>LATG11 := True, t := t s + 1\<rparr>
         else if 0 <s t s \<and> t s <s 1000 then s\<lparr>t := t s + 1\<rparr>
         else if 1000 \<le>s t s \<and> t s <s 3000 then s\<lparr>LATG11 := False, t := t s + 1\<rparr>
         else s\<lparr>t := 0, LATG11 := False\<rparr>)
      else s)"

text \<open>The path condition of the final \<^verbatim>\<open>else\<close> (lines 145-149).\<close>

definition reset_branch :: "controller \<Rightarrow> bool" where
  "reset_branch s =
     (button s = 1 \<and> t s \<noteq> 0 \<and> \<not> (0 <s t s \<and> t s <s 1000)
      \<and> \<not> (1000 \<le>s t s \<and> t s <s 3000))"

subsection \<open>Lines 128-158: the loop\<close>

definition loop_body :: "RD6 \<Rightarrow> controller \<Rightarrow> controller" where
  "loop_body rd s = blink (fst (sample_button rd s))"

text \<open>
  An execution is determined by the readings of the pin, \<open>inp k\<close> being those of tick
  \<open>k + 1\<close>. \<open>run inp n s\<close> is the state when the process enters the idle wait for the
  \<open>n\<close>-th time, having started the loop in \<open>s\<close>.
\<close>

primrec run :: "(nat \<Rightarrow> RD6) \<Rightarrow> nat \<Rightarrow> controller \<Rightarrow> controller" where
  "run inp 0 s = s"
| "run inp (Suc n) s = loop_body (inp n) (run inp n s)"

definition main_loop :: "(nat \<Rightarrow> RD6) \<Rightarrow> nat \<Rightarrow> controller" where
  "main_loop inp n = run inp n main_init"

text \<open>
  The value of \<^verbatim>\<open>LATGbits.LATG11\<close> that the reachable states show, as a function of the
  other two variables: on exactly when the latch is set and \<open>1 \<le> t \<le> 1000\<close>.
\<close>

definition OutputLine :: "8 word \<Rightarrow> 16 word \<Rightarrow> bool" where
  "OutputLine b e = (b = 1 \<and> 1 \<le>s e \<and> e \<le>s 1000)"

text \<open>
  The invariant of the loop: unarmed, nothing has moved; armed, \<open>t\<close> is between 0 and 3000
  and the output is on exactly for \<open>1 \<le> t \<le> 1000\<close>.
\<close>

definition cycle_inv :: "controller \<Rightarrow> bool" where
  "cycle_inv s =
     (if button s = 0 then t s = 0 \<and> \<not> LATG11 s
      else button s = 1 \<and> 0 \<le> sint (t s) \<and> sint (t s) \<le> 3000
           \<and> LATG11 s = (1 \<le> sint (t s) \<and> sint (t s) \<le> 1000))"

text \<open>
  Three input streams used below, each holding the line steady within a tick: the button
  held down from the first tick on; the button released (line high) during the first 50
  ticks and held down from tick 51 on; the button held down during the first tick only.
\<close>

definition held_down :: "nat \<Rightarrow> RD6" where
  "held_down k = steady False"

definition press_after_50 :: "nat \<Rightarrow> RD6" where
  "press_after_50 k = (if k < 50 then steady True else steady False)"

definition tap :: "nat \<Rightarrow> RD6" where
  "tap k = (if k = 0 then steady False else steady True)"

section \<open>Auxiliary facts\<close>

lemma sint_t_succ:
  fixes x :: "16 word"
  assumes "sint x < 32767"
  shows "sint (x + 1) = sint x + 1"
proof -
  have lo: "- (2 ^ 15) \<le> sint x"
    using sint_ge [of x] by simp
  have "sint (x + 1) = signed_take_bit 15 (sint x + 1)"
    by (simp add: sint_word_ariths)
  also have "\<dots> = sint x + 1"
    using lo assms by (intro signed_take_bit_int_eq_self) simp_all
  finally show ?thesis .
qed

lemma sint_t_zero_iff:
  fixes x :: "16 word"
  shows "x = 0 \<longleftrightarrow> sint x = 0"
  by (simp add: signed_eq_0_iff)


lemma sample_button_button:
  "button (fst (sample_button rd s)) = (if button s = 0 \<and> pressed rd then 1 else button s)"
  by (simp add: sample_button_def pressed_def)

lemma sample_button_t [simp]: "t (fst (sample_button rd s)) = t s"
  by (simp add: sample_button_def)

lemma sample_button_LATG11 [simp]: "LATG11 (fst (sample_button rd s)) = LATG11 s"
  by (simp add: sample_button_def)

lemma sample_button_idle: "\<not> (button s = 0 \<and> pressed rd) \<Longrightarrow> fst (sample_button rd s) = s"
  by (auto simp add: sample_button_def pressed_def)

lemma blink_button [simp]: "button (blink s) = button s"
  by (simp add: blink_def)

lemma blink_unarmed: "button s \<noteq> 1 \<Longrightarrow> blink s = s"
  by (simp add: blink_def)

lemma blink_armed_t:
  assumes "button s = 1" "0 \<le> sint (t s)" "sint (t s) \<le> 3000"
  shows "sint (t (blink s)) = (if sint (t s) = 3000 then 0 else sint (t s) + 1)"
  using assms
  by (simp add: blink_def sint_t_zero_iff word_sless_alt word_sle_eq sint_t_succ)

lemma blink_armed_LATG11:
  assumes "button s = 1" "0 \<le> sint (t s)" "sint (t s) \<le> 3000"
  shows "LATG11 (blink s) =
     (if sint (t s) = 0 then True else if sint (t s) < 1000 then LATG11 s else False)"
  using assms
  by (simp add: blink_def sint_t_zero_iff word_sless_alt word_sle_eq)

lemma loop_body_button:
  "button (loop_body rd s) = (if button s = 0 \<and> pressed rd then 1 else button s)"
  by (simp add: loop_body_def sample_button_button)

lemma loop_body_unarmed:
  assumes "button s = 0" "\<not> pressed rd"
  shows "loop_body rd s = s"
  using assms by (simp add: loop_body_def sample_button_idle blink_unarmed)

lemma loop_body_armed:
  assumes "button s = 1"
  shows "loop_body rd s = blink s"
  using assms by (simp add: loop_body_def sample_button_idle)

lemma cycle_inv_init: "cycle_inv main_init"
  by (simp add: cycle_inv_def main_init_def)

lemma cycle_inv_blink:
  assumes "cycle_inv s"
  shows "cycle_inv (blink s)"
proof (cases "button s = 1")
  case True
  with assms have b: "0 \<le> sint (t s)" "sint (t s) \<le> 3000"
    and o: "LATG11 s = (1 \<le> sint (t s) \<and> sint (t s) \<le> 1000)"
    by (simp_all add: cycle_inv_def)
  show ?thesis
    using True b o blink_armed_t [OF True b] blink_armed_LATG11 [OF True b]
    by (auto simp add: cycle_inv_def)
next
  case False
  with assms show ?thesis by (simp add: blink_unarmed)
qed

lemma cycle_inv_sample:
  assumes "cycle_inv s"
  shows "cycle_inv (fst (sample_button rd s))"
  using assms by (auto simp add: cycle_inv_def sample_button_def)

lemma cycle_inv_loop_body: "cycle_inv s \<Longrightarrow> cycle_inv (loop_body rd s)"
  by (simp add: loop_body_def cycle_inv_blink cycle_inv_sample)

lemma cycle_inv_run: "cycle_inv s \<Longrightarrow> cycle_inv (run inp n s)"
  by (induction n) (simp_all add: cycle_inv_loop_body)

lemma cycle_inv_main_loop: "cycle_inv (main_loop inp n)"
  by (simp add: main_loop_def cycle_inv_run cycle_inv_init)

lemma run_add: "run inp (a + n) s = run (\<lambda>k. inp (a + k)) n (run inp a s)"
  by (induction n) simp_all

lemma run_cong: "(\<And>k. k < n \<Longrightarrow> inp1 k = inp2 k) \<Longrightarrow> run inp1 n s = run inp2 n s"
  by (induction n) simp_all

lemma run_button:
  "button (run inp n s) = (if button s = 0 \<and> (\<exists>k<n. pressed (inp k)) then 1 else button s)"
proof (induction n)
  case 0
  show ?case by simp
next
  case (Suc n)
  show ?case
    by (auto simp add: loop_body_button Suc less_Suc_eq)
qed

lemma run_unarmed:
  assumes "button (run inp n s) = 0"
  shows "run inp n s = s"
  using assms
proof (induction n)
  case 0
  show ?case by simp
next
  case (Suc n)
  from Suc.prems have later: "button (loop_body (inp n) (run inp n s)) = 0" by simp
  then have now: "button (run inp n s) = 0" and np: "\<not> pressed (inp n)"
    by (auto simp add: loop_body_button split: if_splits)
  from now np have "loop_body (inp n) (run inp n s) = run inp n s"
    by (rule loop_body_unarmed)
  with Suc.IH [OF now] show ?case by simp
qed

lemma run_armed_ignores_input:
  assumes "button s = 1"
  shows "run inp1 n s = run inp2 n s"
proof (induction n)
  case 0
  show ?case by simp
next
  case (Suc n)
  have "button (run inp1 n s) = 1" using assms by (simp add: run_button)
  then show ?case using Suc by (simp add: loop_body_armed)
qed

text \<open>
  The position in the cycle: from a state whose latch is set at line 134 of the first tick,
  \<open>n\<close> ticks advance \<open>t\<close> by \<open>n\<close> modulo 3001, and the output is on exactly at the
  positions 1 to 1000.
\<close>

lemma blink_phase:
  assumes "button s = 1" "0 \<le> sint (t s)" "sint (t s) \<le> 3000"
    and "0 < sint (t s) \<and> sint (t s) < 1000 \<Longrightarrow> LATG11 s"
  shows "sint (t (blink s)) = (sint (t s) + 1) mod 3001"
    and "LATG11 (blink s) = (1 \<le> (sint (t s) + 1) mod 3001 \<and> (sint (t s) + 1) mod 3001 \<le> 1000)"
proof -
  have m: "(sint (t s) + 1) mod 3001 = (if sint (t s) = 3000 then 0 else sint (t s) + 1)"
    using assms(2,3) by simp
  show "sint (t (blink s)) = (sint (t s) + 1) mod 3001"
    using blink_armed_t [OF assms(1-3)] m by simp
  show "LATG11 (blink s) = (1 \<le> (sint (t s) + 1) mod 3001 \<and> (sint (t s) + 1) mod 3001 \<le> 1000)"
    using blink_armed_LATG11 [OF assms(1-3)] m assms(2-4) by auto
qed

lemma run_phase:
  assumes armed: "button (fst (sample_button (inp 0) s)) = 1"
    and lo: "0 \<le> sint (t s)" and hi: "sint (t s) \<le> 3000"
    and hold: "0 < sint (t s) \<and> sint (t s) < 1000 \<Longrightarrow> LATG11 s"
  shows "button (run inp (Suc n) s) = 1
    \<and> sint (t (run inp (Suc n) s)) = (sint (t s) + int (Suc n)) mod 3001
    \<and> LATG11 (run inp (Suc n) s) =
        (1 \<le> (sint (t s) + int (Suc n)) mod 3001 \<and> (sint (t s) + int (Suc n)) mod 3001 \<le> 1000)"
proof (induction n)
  case 0
  let ?s = "fst (sample_button (inp 0) s)"
  have "0 < sint (t ?s) \<and> sint (t ?s) < 1000 \<Longrightarrow> LATG11 ?s"
    using hold by simp
  from blink_phase [OF armed _ _ this] lo hi armed
  show ?case by (simp add: loop_body_def)
next
  case (Suc n)
  let ?r = "run inp (Suc n) s"
  let ?p = "(sint (t s) + int (Suc n)) mod 3001"
  from Suc have b: "button ?r = 1" and e: "sint (t ?r) = ?p"
    and o: "LATG11 ?r = (1 \<le> ?p \<and> ?p \<le> 1000)"
    by blast+
  have r: "0 \<le> sint (t ?r)" "sint (t ?r) \<le> 3000"
    using e by simp_all
  have h: "0 < sint (t ?r) \<and> sint (t ?r) < 1000 \<Longrightarrow> LATG11 ?r"
    using e o by simp
  have step: "run inp (Suc (Suc n)) s = blink ?r"
    using b by (simp add: loop_body_armed)
  have nxt: "(?p + 1) mod 3001 = (sint (t s) + int (Suc (Suc n))) mod 3001"
    by (simp add: mod_add_left_eq add.assoc)
  show ?case
    using blink_phase [OF b r h] b unfolding step e nxt by simp
qed

lemma t_eq_iff_sint:
  fixes x y :: "16 word"
  shows "x = y \<longleftrightarrow> sint x = sint y"
  by (rule word_eq_iff_signed)

lemma main_loop_Suc: "main_loop inp (Suc n) = loop_body (inp n) (main_loop inp n)"
  by (simp add: main_loop_def)

lemma main_loop_button:
  "button (main_loop inp n) = (if \<exists>k<n. pressed (inp k) then 1 else 0)"
  by (simp add: main_loop_def run_button main_init_def)

lemma run_phase_pos:
  assumes armed: "button (fst (sample_button (inp 0) s)) = 1"
    and lo: "0 \<le> sint (t s)" and hi: "sint (t s) \<le> 3000"
    and hold: "0 < sint (t s) \<and> sint (t s) < 1000 \<Longrightarrow> LATG11 s"
    and pos: "0 < n"
  shows "button (run inp n s) = 1"
    and "sint (t (run inp n s)) = (sint (t s) + int n) mod 3001"
    and "LATG11 (run inp n s) =
          (1 \<le> (sint (t s) + int n) mod 3001 \<and> (sint (t s) + int n) mod 3001 \<le> 1000)"
proof -
  from pos obtain m where n: "n = Suc m" by (auto simp add: gr0_conv_Suc)
  note ph = run_phase [of inp s m, OF armed lo hi hold]
  show "button (run inp n s) = 1" using ph unfolding n by blast
  show "sint (t (run inp n s)) = (sint (t s) + int n) mod 3001" using ph unfolding n by blast
  show "LATG11 (run inp n s) =
          (1 \<le> (sint (t s) + int n) mod 3001 \<and> (sint (t s) + int n) mod 3001 \<le> 1000)"
    using ph unfolding n by blast
qed

lemma main_loop_phase:
  assumes armed: "button (main_loop inp a) = 1" and pos: "0 < d"
  shows "button (main_loop inp (a + d)) = 1"
    and "sint (t (main_loop inp (a + d))) = (sint (t (main_loop inp a)) + int d) mod 3001"
    and "LATG11 (main_loop inp (a + d)) =
          (1 \<le> (sint (t (main_loop inp a)) + int d) mod 3001
           \<and> (sint (t (main_loop inp a)) + int d) mod 3001 \<le> 1000)"
proof -
  let ?s = "main_loop inp a"
  let ?inp = "\<lambda>k. inp (a + k)"
  have inv: "cycle_inv ?s" by (rule cycle_inv_main_loop)
  have a1: "button (fst (sample_button (?inp 0) ?s)) = 1"
    using armed by (simp add: sample_button_button)
  have lo: "0 \<le> sint (t ?s)" and hi: "sint (t ?s) \<le> 3000"
    and hold: "0 < sint (t ?s) \<and> sint (t ?s) < 1000 \<Longrightarrow> LATG11 ?s"
    using inv armed by (simp_all add: cycle_inv_def)
  have shift: "main_loop inp (a + d) = run ?inp d ?s"
    by (simp add: main_loop_def run_add)
  note ph = run_phase_pos [of ?inp ?s d, OF a1 lo hi hold pos]
  show "button (main_loop inp (a + d)) = 1" unfolding shift by (rule ph(1))
  show "sint (t (main_loop inp (a + d))) = (sint (t ?s) + int d) mod 3001"
    unfolding shift by (rule ph(2))
  show "LATG11 (main_loop inp (a + d)) =
          (1 \<le> (sint (t ?s) + int d) mod 3001 \<and> (sint (t ?s) + int d) mod 3001 \<le> 1000)"
    unfolding shift by (rule ph(3))
qed

lemma held_down_phase:
  assumes "0 < n"
  shows "button (main_loop held_down n) = 1"
    and "sint (t (main_loop held_down n)) = int n mod 3001"
    and "LATG11 (main_loop held_down n) = (1 \<le> int n mod 3001 \<and> int n mod 3001 \<le> 1000)"
proof -
  have a1: "button (fst (sample_button (held_down 0) main_init)) = 1"
    by (simp add: sample_button_def held_down_def steady_def main_init_def)
  have z: "sint (t main_init) = 0" by (simp add: main_init_def)
  have lo: "0 \<le> sint (t main_init)" and hi: "sint (t main_init) \<le> 3000"
    and hold: "0 < sint (t main_init) \<and> sint (t main_init) < 1000 \<Longrightarrow> LATG11 main_init"
    by (simp_all add: z)
  note ph = run_phase_pos [of held_down main_init n, OF a1 lo hi hold assms]
  show "button (main_loop held_down n) = 1" using ph(1) by (simp add: main_loop_def)
  show "sint (t (main_loop held_down n)) = int n mod 3001"
    using ph(2) by (simp add: main_loop_def z)
  show "LATG11 (main_loop held_down n) = (1 \<le> int n mod 3001 \<and> int n mod 3001 \<le> 1000)"
    using ph(3) by (simp add: main_loop_def z)
qed

lemma press_after_50_idle:
  assumes "n \<le> 50"
  shows "main_loop press_after_50 n = main_init"
proof -
  have "\<not> (\<exists>k<n. pressed (press_after_50 k))"
    using assms by (auto simp add: press_after_50_def pressed_def steady_def)
  then have "button (main_loop press_after_50 n) = 0"
    by (simp add: main_loop_button)
  then show ?thesis unfolding main_loop_def by (rule run_unarmed)
qed

lemma press_after_50_phase:
  assumes "0 < d"
  shows "LATG11 (main_loop press_after_50 (50 + d)) = (1 \<le> int d mod 3001 \<and> int d mod 3001 \<le> 1000)"
proof -
  let ?inp = "\<lambda>k. press_after_50 (50 + k)"
  have a1: "button (fst (sample_button (?inp 0) main_init)) = 1"
    by (simp add: sample_button_def press_after_50_def steady_def main_init_def)
  have z: "sint (t main_init) = 0" by (simp add: main_init_def)
  have lo: "0 \<le> sint (t main_init)" and hi: "sint (t main_init) \<le> 3000"
    and hold: "0 < sint (t main_init) \<and> sint (t main_init) < 1000 \<Longrightarrow> LATG11 main_init"
    by (simp_all add: z)
  have "main_loop press_after_50 (50 + d) = run ?inp d (main_loop press_after_50 50)"
    by (simp add: main_loop_def run_add)
  also have "\<dots> = run ?inp d main_init"
    by (simp add: press_after_50_idle)
  finally have shift: "main_loop press_after_50 (50 + d) = run ?inp d main_init" .
  show ?thesis
    unfolding shift using run_phase_pos(3) [of ?inp main_init d, OF a1 lo hi hold assms]
    by (simp add: z)
qed

section \<open>The claims\<close>

text \<open>
  Claim C1, as the code has it. Ticks are numbered from 1 at the first evaluation of line
  134 that finds the latch set, with \<open>t = 0\<close>. The output is on after tick 1 and stays on
  through tick 1000; it is switched off at tick 1001 (the tick evaluated with \<open>t = 1000\<close>)
  and stays off through tick 3001; tick 3000 leaves \<open>t = 3000\<close>, tick 3001 resets \<open>t\<close> to
  0, and the output is on again at tick 3002. For the stream whose line is high (button
  released) during ticks 1 to 50 and low (button pressed) from tick 51 on: nothing changes
  during ticks 1 to 50, the output is on at tick 51 and through tick 1050, off at tick 1051
  and through tick 3051, and on again at tick 3052.
\<close>

theorem armed_cycle_timeline:
  assumes armed: "button (fst (sample_button (inp 0) s)) = 1" and zero: "t s = 0"
  shows "(\<forall>n. 1 \<le> n \<and> n \<le> 1000 \<longrightarrow> LATG11 (run inp n s))
       \<and> (\<forall>n. 1001 \<le> n \<and> n \<le> 3001 \<longrightarrow> \<not> LATG11 (run inp n s))
       \<and> t (run inp 3000 s) = 3000
       \<and> t (run inp 3001 s) = 0
       \<and> LATG11 (run inp 3002 s)
       \<and> (\<forall>n. n \<le> 50 \<longrightarrow> main_loop press_after_50 n = main_init)
       \<and> LATG11 (main_loop press_after_50 51)
       \<and> (\<forall>n. 51 \<le> n \<and> n \<le> 1050 \<longrightarrow> LATG11 (main_loop press_after_50 n))
       \<and> (\<forall>n. 1051 \<le> n \<and> n \<le> 3051 \<longrightarrow> \<not> LATG11 (main_loop press_after_50 n))
       \<and> LATG11 (main_loop press_after_50 3052)"
proof -
  have z: "sint (t s) = 0" by (simp add: zero)
  have lo: "0 \<le> sint (t s)" and hi: "sint (t s) \<le> 3000"
    and hold: "0 < sint (t s) \<and> sint (t s) < 1000 \<Longrightarrow> LATG11 s"
    by (simp_all add: z)
  have ph2: "sint (t (run inp n s)) = int n mod 3001" if "0 < n" for n
    using run_phase_pos(2) [of inp s n, OF armed lo hi hold that] by (simp add: z)
  have ph3: "LATG11 (run inp n s) = (1 \<le> int n mod 3001 \<and> int n mod 3001 \<le> 1000)"
    if "0 < n" for n
    using run_phase_pos(3) [of inp s n, OF armed lo hi hold that] by (simp add: z)
  have on: "LATG11 (run inp n s)" if "1 \<le> n \<and> n \<le> 1000" for n
    using that ph3 [of n] by simp
  have off: "\<not> LATG11 (run inp n s)" if "1001 \<le> n \<and> n \<le> 3001" for n
  proof (cases "n = 3001")
    case True
    then show ?thesis using ph3 [of n] by simp
  next
    case False
    with that have "int n mod 3001 = int n" by simp
    with that show ?thesis using ph3 [of n] by simp
  qed
  have top: "t (run inp 3000 s) = 3000"
    using ph2 [of 3000] by (simp add: t_eq_iff_sint)
  have reset: "t (run inp 3001 s) = 0"
    using ph2 [of 3001] by (simp add: t_eq_iff_sint)
  have again: "LATG11 (run inp 3002 s)"
    using ph3 [of 3002] by simp
  have s_idle: "main_loop press_after_50 n = main_init" if "n \<le> 50" for n
    using that by (rule press_after_50_idle)
  have s_on: "LATG11 (main_loop press_after_50 n)" if "51 \<le> n \<and> n \<le> 1050" for n
  proof -
    from that have n: "n = 50 + (n - 50)" and d: "0 < n - 50" "n - 50 \<le> 1000" by auto
    from d have "int (n - 50) mod 3001 = int (n - 50)" by simp
    with d show ?thesis using press_after_50_phase [OF d(1)] unfolding n [symmetric] by simp
  qed
  have s_off: "\<not> LATG11 (main_loop press_after_50 n)" if "1051 \<le> n \<and> n \<le> 3051" for n
  proof -
    from that have n: "n = 50 + (n - 50)" and d: "0 < n - 50" "1001 \<le> n - 50" "n - 50 \<le> 3001"
      by auto
    show ?thesis
    proof (cases "n - 50 = 3001")
      case True
      then show ?thesis using press_after_50_phase [OF d(1)] unfolding n [symmetric] by simp
    next
      case False
      with d have "int (n - 50) mod 3001 = int (n - 50)" by simp
      with d show ?thesis using press_after_50_phase [OF d(1)] unfolding n [symmetric] by simp
    qed
  qed
  have s_51: "LATG11 (main_loop press_after_50 51)"
    using s_on [of 51] by simp
  have s_again: "LATG11 (main_loop press_after_50 3052)"
    using press_after_50_phase [of 3002] by simp
  show ?thesis
    using on off top reset again s_idle s_51 s_on s_off s_again by blast
qed

text \<open>
  The theorem of C1 at the stream that holds the button down, started in the initial state.
\<close>

theorem armed_cycle_timeline_witness:
  "button (fst (sample_button (held_down 0) main_init)) = 1 \<and> t main_init = 0
   \<and> LATG11 (run held_down 1 main_init) \<and> LATG11 (run held_down 1000 main_init)
   \<and> \<not> LATG11 (run held_down 1001 main_init) \<and> \<not> LATG11 (run held_down 3001 main_init)
   \<and> t (run held_down 3000 main_init) = 3000 \<and> t (run held_down 3001 main_init) = 0
   \<and> LATG11 (run held_down 3002 main_init)
   \<and> main_loop press_after_50 50 = main_init
   \<and> LATG11 (main_loop press_after_50 51) \<and> LATG11 (main_loop press_after_50 1050)
   \<and> \<not> LATG11 (main_loop press_after_50 1051) \<and> \<not> LATG11 (main_loop press_after_50 3051)
   \<and> LATG11 (main_loop press_after_50 3052)"
proof -
  have a: "button (fst (sample_button (held_down 0) main_init)) = 1"
    by (simp add: sample_button_def held_down_def steady_def main_init_def)
  have z: "t main_init = 0"
    by (simp add: main_init_def)
  note line = armed_cycle_timeline [of held_down main_init, OF a z]
  have on: "LATG11 (run held_down n main_init)" if "1 \<le> n \<and> n \<le> 1000" for n
    using line that by blast
  have off: "\<not> LATG11 (run held_down n main_init)" if "1001 \<le> n \<and> n \<le> 3001" for n
    using line that by blast
  have idle: "main_loop press_after_50 n = main_init" if "n \<le> 50" for n
    using line that by blast
  have s_on: "LATG11 (main_loop press_after_50 n)" if "51 \<le> n \<and> n \<le> 1050" for n
    using line that by blast
  have s_off: "\<not> LATG11 (main_loop press_after_50 n)" if "1051 \<le> n \<and> n \<le> 3051" for n
    using line that by blast
  have "LATG11 (run held_down 1 main_init)" by (rule on) simp
  moreover have "LATG11 (run held_down 1000 main_init)" by (rule on) simp
  moreover have "\<not> LATG11 (run held_down 1001 main_init)" by (rule off) simp
  moreover have "\<not> LATG11 (run held_down 3001 main_init)" by (rule off) simp
  moreover have "main_loop press_after_50 50 = main_init" by (rule idle) simp
  moreover have "LATG11 (main_loop press_after_50 1050)" by (rule s_on) simp
  moreover have "\<not> LATG11 (main_loop press_after_50 1051)" by (rule s_off) simp
  moreover have "\<not> LATG11 (main_loop press_after_50 3051)" by (rule s_off) simp
  ultimately show ?thesis using a z line by blast
qed

text \<open>
  Claim C1 as stated fails: it has the output off at tick 1000, \<open>t\<close> back at 0 at tick 3000
  and the output on again at tick 3051 of the second stream. With the button held down from
  the first tick, tick 1 is the first armed evaluation; the output is still on after tick
  1000 and \<open>t\<close> is 3000 after tick 3000. In the second stream the output is off at tick 3051.
\<close>

theorem armed_cycle_timeline_counterexample:
  "LATG11 (main_loop held_down 1000) \<and> t (main_loop held_down 3000) = 3000
   \<and> \<not> LATG11 (main_loop press_after_50 3051)"
proof -
  have "LATG11 (main_loop held_down 1000)"
    using held_down_phase(3) [of 1000] by simp
  moreover have "t (main_loop held_down 3000) = 3000"
    using held_down_phase(2) [of 3000] by (simp add: t_eq_iff_sint)
  moreover have "\<not> LATG11 (main_loop press_after_50 3051)"
    using press_after_50_phase [of 3001] by simp
  ultimately show ?thesis by simp
qed

text \<open>
  Claim C2, as the code has it: once the latch is set, the period of the cycle is exactly
  3001 ticks. The whole state, and so the output, repeats after 3001 ticks, from every tick
  on and forever, and no shorter positive shift maps the output sequence onto itself. In
  each cycle the output is on at the positions 1 to 1000 of \<open>t\<close> (the tick of the on-edge
  and 999 ticks of holding) and off at the other 2001 positions.
\<close>

theorem cycle_period_3001:
  assumes armed: "button (main_loop inp a) = 1"
  shows "(\<forall>n\<ge>a. main_loop inp (n + 3001) = main_loop inp n)
       \<and> (\<forall>n\<ge>a. LATG11 (main_loop inp (n + 3001)) = LATG11 (main_loop inp n))
       \<and> (\<forall>p. 0 < p \<and> p < 3001 \<longrightarrow>
             (\<exists>n\<ge>a. LATG11 (main_loop inp (n + p)) \<noteq> LATG11 (main_loop inp n)))
       \<and> (\<forall>d. 0 < d \<longrightarrow>
             LATG11 (main_loop inp (a + d)) =
               (1 \<le> (sint (t (main_loop inp a)) + int d) mod 3001
                \<and> (sint (t (main_loop inp a)) + int d) mod 3001 \<le> 1000))"
proof -
  have shape: "LATG11 (main_loop inp (a + d)) =
      (1 \<le> (sint (t (main_loop inp a)) + int d) mod 3001
       \<and> (sint (t (main_loop inp a)) + int d) mod 3001 \<le> 1000)" if "0 < d" for d
    using armed that by (rule main_loop_phase(3))
  have later: "button (main_loop inp n) = 1" if "a \<le> n" for n
  proof -
    from armed obtain k where "k < a" "pressed (inp k)"
      by (auto simp add: main_loop_button split: if_splits)
    with that have "\<exists>k<n. pressed (inp k)" by (intro exI [of _ k]) simp
    then show ?thesis by (simp add: main_loop_button)
  qed
  have period: "main_loop inp (n + 3001) = main_loop inp n" if "a \<le> n" for n
  proof -
    let ?s = "main_loop inp n"
    have b: "button ?s = 1" using that by (rule later)
    have inv: "cycle_inv ?s" by (rule cycle_inv_main_loop)
    have lo: "0 \<le> sint (t ?s)" and hi: "sint (t ?s) \<le> 3000"
      and out: "LATG11 ?s = (1 \<le> sint (t ?s) \<and> sint (t ?s) \<le> 1000)"
      using inv b by (simp_all add: cycle_inv_def)
    have around: "(sint (t ?s) + int 3001) mod 3001 = sint (t ?s)"
      using lo hi by simp
    have "button (main_loop inp (n + 3001)) = button ?s"
      using main_loop_phase(1) [OF b, of 3001] b by simp
    moreover have "t (main_loop inp (n + 3001)) = t ?s"
      using main_loop_phase(2) [OF b, of 3001] around by (simp add: t_eq_iff_sint)
    moreover have "LATG11 (main_loop inp (n + 3001)) = LATG11 ?s"
      using main_loop_phase(3) [OF b, of 3001] around out by simp
    ultimately show ?thesis by (intro controller.equality) simp_all
  qed
  have shorter: "\<exists>n\<ge>a. LATG11 (main_loop inp (n + p)) \<noteq> LATG11 (main_loop inp n)"
    if p: "0 < p \<and> p < 3001" for p
  proof -
    let ?K = "sint (t (main_loop inp a))"
    define tgt :: int where "tgt = (if p \<le> 2000 then 1000 else 1)"
    define d where "d = nat ((tgt - ?K) mod 3001) + 3001"
    have dpos: "0 < d" and dppos: "0 < d + p" by (simp_all add: d_def)
    have tgt_range: "0 \<le> tgt" "tgt < 3001" by (simp_all add: tgt_def)
    have "int d = (tgt - ?K) mod 3001 + 3001" by (simp add: d_def)
    then have "(?K + int d) mod 3001 = (?K + (tgt - ?K) mod 3001) mod 3001"
      by (simp add: add.assoc [symmetric])
    also have "\<dots> = (?K + (tgt - ?K)) mod 3001" by (rule mod_add_right_eq)
    also have "\<dots> = tgt" using tgt_range by simp
    finally have at_d: "(?K + int d) mod 3001 = tgt" .
    have "(?K + int (d + p)) mod 3001 = ((?K + int d) mod 3001 + int p) mod 3001"
      by (simp add: mod_add_left_eq add.assoc)
    then have at_dp: "(?K + int (d + p)) mod 3001 = (tgt + int p) mod 3001"
      by (simp add: at_d)
    have on: "LATG11 (main_loop inp (a + d))"
      using main_loop_phase(3) [OF armed dpos] unfolding at_d by (simp add: tgt_def)
    have away: "\<not> (1 \<le> (tgt + int p) mod 3001 \<and> (tgt + int p) mod 3001 \<le> 1000)"
    proof (cases "p \<le> 2000")
      case True
      then have "(tgt + int p) mod 3001 = 1000 + int p" by (simp add: tgt_def)
      with p show ?thesis by simp
    next
      case False
      show ?thesis
      proof (cases "p = 3000")
        case True
        then show ?thesis by (simp add: tgt_def)
      next
        case ne: False
        with False p have "(tgt + int p) mod 3001 = 1 + int p" by (simp add: tgt_def)
        with False show ?thesis by simp
      qed
    qed
    have off: "\<not> LATG11 (main_loop inp (a + (d + p)))"
      using main_loop_phase(3) [OF armed dppos] away unfolding at_dp by simp
    have "LATG11 (main_loop inp ((a + d) + p)) \<noteq> LATG11 (main_loop inp (a + d))"
      using on off by (simp add: add.assoc)
    then show ?thesis by (intro exI [of _ "a + d"]) simp
  qed
  show ?thesis using period shorter shape by simp
qed

text \<open>
  The theorem of C2 for the button held down from the first tick: the state after tick 3002
  is the state after tick 1.
\<close>

theorem cycle_period_3001_witness:
  "button (main_loop held_down 1) = 1
   \<and> main_loop held_down (1 + 3001) = main_loop held_down 1
   \<and> LATG11 (main_loop held_down (1 + 3001)) = LATG11 (main_loop held_down 1)"
proof -
  have a: "button (main_loop held_down 1) = 1"
    by (rule held_down_phase(1)) simp
  note per = cycle_period_3001 [OF a]
  have "main_loop held_down (n + 3001) = main_loop held_down n" if "1 \<le> n" for n
    using per that by blast
  from this [of 1] a show ?thesis by simp
qed

text \<open>
  Claim C2 as stated fails: 3000 ticks is not a period. With the button held down, the
  output is on after tick 1 and off after tick 3001.
\<close>

theorem cycle_period_3000_counterexample:
  "button (main_loop held_down 1) = 1 \<and> LATG11 (main_loop held_down 1)
   \<and> \<not> LATG11 (main_loop held_down (1 + 3000))"
proof -
  have "button (main_loop held_down 1) = 1"
    by (rule held_down_phase(1)) simp
  moreover have "LATG11 (main_loop held_down 1)"
    using held_down_phase(3) [of 1] by simp
  moreover have "\<not> LATG11 (main_loop held_down (1 + 3000))"
    using held_down_phase(3) [of "1 + 3000"] by simp
  ultimately show ?thesis by simp
qed

text \<open>
  Claim C3: in every state that an execution reaches, whatever the readings of the pin,
  the output bit is the function \<open>OutputLine\<close> of the latch and of \<open>t\<close>.
\<close>

theorem OutputLine_pure_function:
  "LATG11 (main_loop inp n) = OutputLine (button (main_loop inp n)) (t (main_loop inp n))"
  using cycle_inv_main_loop [of inp n]
  by (auto simp add: cycle_inv_def OutputLine_def word_sle_eq split: if_splits)

text \<open>
  Claim C4: in an execution whose latch is set, the output goes from on to off on exactly
  the tick that is evaluated with \<open>t = 1000\<close>, and \<open>t\<close> becomes 0 on exactly the tick that
  is evaluated with \<open>t = 3000\<close>.
\<close>

theorem transitions_fire_on_boundary_ticks:
  assumes "button (main_loop inp (Suc n)) = 1"
  shows "((LATG11 (main_loop inp n) \<and> \<not> LATG11 (main_loop inp (Suc n)))
            \<longleftrightarrow> t (main_loop inp n) = 1000)
       \<and> (t (main_loop inp (Suc n)) = 0 \<longleftrightarrow> t (main_loop inp n) = 3000)"
proof -
  let ?s = "main_loop inp n"
  let ?a = "fst (sample_button (inp n) ?s)"
  have nxt: "main_loop inp (Suc n) = blink ?a"
    by (simp add: main_loop_Suc loop_body_def)
  have armed: "button ?a = 1"
    using assms by (simp add: nxt)
  have inv: "cycle_inv ?s"
    by (rule cycle_inv_main_loop)
  have lo: "0 \<le> sint (t ?a)" and hi: "sint (t ?a) \<le> 3000"
    using inv by (auto simp add: cycle_inv_def split: if_splits)
  have out: "LATG11 ?s = (1 \<le> sint (t ?s) \<and> sint (t ?s) \<le> 1000)"
    using inv by (auto simp add: cycle_inv_def split: if_splits)
  have off: "(LATG11 ?s \<and> \<not> LATG11 (blink ?a)) \<longleftrightarrow> sint (t ?s) = 1000"
    using blink_armed_LATG11 [OF armed lo hi] out by auto
  have reset: "sint (t (blink ?a)) = 0 \<longleftrightarrow> sint (t ?s) = 3000"
    using blink_armed_t [OF armed lo hi] lo by auto
  show ?thesis
    using off reset by (simp add: nxt t_eq_iff_sint)
qed

text \<open>
  The theorem of C4 at ticks 1001 and 3001 of the stream that holds the button down.
\<close>

theorem transitions_fire_on_boundary_ticks_witness:
  "button (main_loop held_down (Suc 1000)) = 1
   \<and> t (main_loop held_down 1000) = 1000
   \<and> LATG11 (main_loop held_down 1000) \<and> \<not> LATG11 (main_loop held_down (Suc 1000))
   \<and> button (main_loop held_down (Suc 3000)) = 1
   \<and> t (main_loop held_down 3000) = 3000
   \<and> t (main_loop held_down (Suc 3000)) = 0"
proof -
  have a: "button (main_loop held_down (Suc 1000)) = 1"
    by (rule held_down_phase(1)) simp
  have b: "button (main_loop held_down (Suc 3000)) = 1"
    by (rule held_down_phase(1)) simp
  have c: "t (main_loop held_down 1000) = 1000"
    using held_down_phase(2) [of 1000] by (simp add: t_eq_iff_sint)
  have d: "t (main_loop held_down 3000) = 3000"
    using held_down_phase(2) [of 3000] by (simp add: t_eq_iff_sint)
  show ?thesis
    using a b c d transitions_fire_on_boundary_ticks [OF a]
      transitions_fire_on_boundary_ticks [OF b]
    by simp
qed

text \<open>
  Claim C5: the latch is 0 until the first tick that reads the button pressed and 1 from
  the end of that tick on; it changes at most once, from 0 to 1, and every later state has
  it set. A tick reads the button pressed when the pin is low at each of its reads.
\<close>

theorem latch_set_once_never_reset:
  "button (main_loop inp n) = (if \<exists>k<n. pressed (inp k) then 1 else 0)
   \<and> (\<forall>m. n \<le> m \<and> button (main_loop inp n) = 1 \<longrightarrow> button (main_loop inp m) = 1)"
proof -
  have "button (main_loop inp m) = 1" if "n \<le> m" "button (main_loop inp n) = 1" for m
  proof -
    from that(2) obtain k where "k < n" "pressed (inp k)"
      by (auto simp add: main_loop_button split: if_splits)
    with that(1) have "\<exists>k<m. pressed (inp k)" by (intro exI [of _ k]) simp
    then show ?thesis by (simp add: main_loop_button)
  qed
  then show ?thesis by (simp add: main_loop_button)
qed

text \<open>
  The theorem of C5 for the button held down from the first tick.
\<close>

theorem latch_set_once_never_reset_witness:
  "pressed (held_down 0) \<and> button (main_loop held_down 1) = 1
   \<and> button (main_loop held_down 2) = 1"
proof -
  have p: "pressed (held_down 0)"
    by (simp add: held_down_def pressed_def steady_def)
  then have e: "\<exists>k<1. pressed (held_down k)" by simp
  have one: "button (main_loop held_down 1) = 1"
    using latch_set_once_never_reset [of held_down 1] e by simp
  have "(1::nat) \<le> 2" by simp
  with one have "button (main_loop held_down 2) = 1"
    using latch_set_once_never_reset [of held_down 1] by blast
  with p one show ?thesis by simp
qed

text \<open>
  Claim C6: two executions whose readings agree during the first \<open>a\<close> ticks, the latch being
  set after tick \<open>a\<close>, pass through the same states and show the same output at every tick,
  however the readings differ afterwards; and from tick \<open>a + 1\<close> on no tick reads the pin.
\<close>

theorem input_ignored_after_arming:
  assumes agree: "\<forall>k<a. inp1 k = inp2 k"
    and armed: "button (main_loop inp1 a) = 1"
  shows "(\<forall>n. main_loop inp1 n = main_loop inp2 n)
       \<and> (\<forall>n. LATG11 (main_loop inp1 n) = LATG11 (main_loop inp2 n))
       \<and> (\<forall>n\<ge>a. RD6_reads (inp1 n) (main_loop inp1 n) = 0)"
proof -
  have pre: "run inp1 a main_init = run inp2 a main_init"
    using agree by (intro run_cong) simp
  have same: "main_loop inp1 n = main_loop inp2 n" for n
  proof (cases "n \<le> a")
    case True
    then show ?thesis
      using agree unfolding main_loop_def by (intro run_cong) simp
  next
    case False
    then obtain d where n: "n = a + d" by (metis le_add_diff_inverse nat_le_linear)
    have b: "button (run inp1 a main_init) = 1"
      using armed by (simp add: main_loop_def)
    have "run inp1 (a + d) main_init = run (\<lambda>k. inp1 (a + k)) d (run inp1 a main_init)"
      by (rule run_add)
    also have "\<dots> = run (\<lambda>k. inp2 (a + k)) d (run inp1 a main_init)"
      using b by (rule run_armed_ignores_input)
    also have "\<dots> = run inp2 (a + d) main_init"
      by (simp add: pre run_add)
    finally show ?thesis by (simp add: main_loop_def n)
  qed
  have quiet: "RD6_reads (inp1 n) (main_loop inp1 n) = 0" if "a \<le> n" for n
  proof -
    from armed obtain k where "k < a" "pressed (inp1 k)"
      by (auto simp add: main_loop_button split: if_splits)
    with that have "\<exists>k<n. pressed (inp1 k)" by (intro exI [of _ k]) simp
    then have "button (main_loop inp1 n) = 1" by (simp add: main_loop_button)
    then show ?thesis by (simp add: RD6_reads_def sample_button_def)
  qed
  show ?thesis using same quiet by simp
qed

text \<open>
  The theorem of C6 for the button held down for ever against the button released after
  the first tick.
\<close>

theorem input_ignored_after_arming_witness:
  "held_down 0 = tap 0 \<and> held_down 1 \<noteq> tap 1 \<and> button (main_loop held_down 1) = 1
   \<and> main_loop held_down 2 = main_loop tap 2
   \<and> LATG11 (main_loop held_down 2) = LATG11 (main_loop tap 2)
   \<and> RD6_reads (held_down 1) (main_loop held_down 1) = 0"
proof -
  have agree: "\<forall>k<1. held_down k = tap k"
    by (simp add: held_down_def tap_def)
  have differ: "held_down 1 \<noteq> tap 1"
    by (simp add: held_down_def tap_def steady_def)
  have armed: "button (main_loop held_down 1) = 1"
    by (rule held_down_phase(1)) simp
  note ign = input_ignored_after_arming [OF agree armed]
  have same: "main_loop held_down n = main_loop tap n" for n
    using ign by blast
  have quiet: "RD6_reads (held_down n) (main_loop held_down n) = 0" if "1 \<le> n" for n
    using ign that by blast
  have "held_down 0 = tap 0" using agree by simp
  with differ armed same [of 2] quiet [of 1] show ?thesis by simp
qed

text \<open>
  Claim C7: a tick whose evaluation of line 134 finds the latch clear leaves the whole state
  as it was; and after any number of ticks, while the latch is clear, \<open>t\<close> is 0 and the
  output is what the initialisation wrote.
\<close>

theorem unarmed_ticks_change_nothing:
  "(button (loop_body rd s) = 0 \<longrightarrow> loop_body rd s = s)
   \<and> (button (main_loop inp n) = 0 \<longrightarrow>
        t (main_loop inp n) = 0 \<and> LATG11 (main_loop inp n) = LATG11 main_init
        \<and> main_loop inp n = main_init)"
proof -
  have one: "loop_body rd s = s" if "button (loop_body rd s) = 0"
  proof -
    from that have "button s = 0" "\<not> pressed rd"
      by (auto simp add: loop_body_button split: if_splits)
    then show ?thesis by (rule loop_body_unarmed)
  qed
  have many: "main_loop inp n = main_init" if "button (main_loop inp n) = 0"
    using that unfolding main_loop_def by (rule run_unarmed)
  have "t main_init = 0" by (simp add: main_init_def)
  with one many show ?thesis by auto
qed

text \<open>
  The theorem of C7 at a tick with the line high, and after the 50 idle ticks of the second
  stream.
\<close>

theorem unarmed_ticks_change_nothing_witness:
  "button (loop_body (steady True) main_init) = 0
   \<and> loop_body (steady True) main_init = main_init
   \<and> button (main_loop press_after_50 50) = 0
   \<and> t (main_loop press_after_50 50) = 0
   \<and> LATG11 (main_loop press_after_50 50) = LATG11 main_init"
proof -
  have a: "button (loop_body (steady True) main_init) = 0"
    by (simp add: loop_body_button pressed_def steady_def main_init_def)
  have b: "button (main_loop press_after_50 50) = 0"
    by (simp add: press_after_50_idle main_init_def)
  show ?thesis
    using a b unarmed_ticks_change_nothing [of "steady True" main_init press_after_50 50]
    by (simp add: main_init_def)
qed

text \<open>
  Claim C8, as the code has it: in every reachable state \<open>t\<close> is between 0 and 3000, both
  included; on every tick whose evaluation of line 134 finds the latch set, \<open>t\<close> grows by
  exactly one, except on the tick evaluated with \<open>t = 3000\<close>, which sets it to 0.
\<close>

theorem elapsed_range_and_increment:
  "0 \<le> sint (t (main_loop inp n)) \<and> sint (t (main_loop inp n)) \<le> 3000
   \<and> (button (main_loop inp (Suc n)) = 1 \<longrightarrow>
        sint (t (main_loop inp (Suc n))) =
          (if sint (t (main_loop inp n)) = 3000 then 0 else sint (t (main_loop inp n)) + 1))"
proof -
  let ?s = "main_loop inp n"
  let ?a = "fst (sample_button (inp n) ?s)"
  have inv: "cycle_inv ?s" by (rule cycle_inv_main_loop)
  have lo: "0 \<le> sint (t ?s)" and hi: "sint (t ?s) \<le> 3000"
    using inv by (auto simp add: cycle_inv_def split: if_splits)
  have nxt: "main_loop inp (Suc n) = blink ?a"
    by (simp add: main_loop_Suc loop_body_def)
  have "sint (t (blink ?a)) = (if sint (t ?s) = 3000 then 0 else sint (t ?s) + 1)"
    if "button (blink ?a) = 1"
  proof -
    from that have b: "button ?a = 1" by simp
    from lo hi have "0 \<le> sint (t ?a)" "sint (t ?a) \<le> 3000" by simp_all
    from blink_armed_t [OF b this] show ?thesis by simp
  qed
  with lo hi show ?thesis by (simp add: nxt)
qed

text \<open>
  The theorem of C8 at ticks 3001 and 8 of the stream that holds the button down.
\<close>

theorem elapsed_range_and_increment_witness:
  "button (main_loop held_down (Suc 3000)) = 1
   \<and> sint (t (main_loop held_down 3000)) = 3000
   \<and> sint (t (main_loop held_down (Suc 3000))) = 0
   \<and> button (main_loop held_down (Suc 7)) = 1
   \<and> sint (t (main_loop held_down 7)) = 7
   \<and> sint (t (main_loop held_down (Suc 7))) = 8"
proof -
  have a: "button (main_loop held_down (Suc 3000)) = 1"
    by (rule held_down_phase(1)) simp
  have b: "sint (t (main_loop held_down 3000)) = 3000"
    using held_down_phase(2) [of 3000] by simp
  have c: "button (main_loop held_down (Suc 7)) = 1"
    by (rule held_down_phase(1)) simp
  have d: "sint (t (main_loop held_down 7)) = 7"
    using held_down_phase(2) [of 7] by simp
  show ?thesis
    using a b c d elapsed_range_and_increment [of held_down 3000]
      elapsed_range_and_increment [of held_down 7]
    by simp
qed

text \<open>
  Claim C8 as stated fails: the range is not \<open>[0, 3000)\<close>. With the button held down,
  \<open>t\<close> is 3000 after tick 3000.
\<close>

theorem elapsed_range_counterexample:
  "\<not> sint (t (main_loop held_down 3000)) < 3000"
  using held_down_phase(2) [of 3000] by simp

text \<open>
  Claim C9, as the code has it: on a tick that starts with the latch clear, the pin is read
  once when the first reading is high and twice when it is low (line 129, then line 131).
  The logic is inverted: the latch is set when the pin reads low, and a high reading leaves
  the whole state unchanged. On a steady line: high, one read and no change; low, two reads
  and the latch set.
\<close>

theorem unarmed_tick_sampling:
  assumes "button s = 0"
  shows "RD6_reads rd s = (if fst rd then 1 else 2)
       \<and> (if pressed rd then fst (sample_button rd s) = s\<lparr>button := 1\<rparr>
            \<and> button (loop_body rd s) = 1
          else loop_body rd s = s)
       \<and> RD6_reads (steady True) s = 1 \<and> loop_body (steady True) s = s
       \<and> RD6_reads (steady False) s = 2 \<and> button (loop_body (steady False) s) = 1"
proof -
  have reads: "RD6_reads rd s = (if fst rd then 1 else 2)" for rd
    using assms by (simp add: RD6_reads_def sample_button_def)
  have arm: "fst (sample_button rd s) = s\<lparr>button := 1\<rparr> \<and> button (loop_body rd s) = 1"
    if "pressed rd" for rd
    using assms that by (simp add: sample_button_def pressed_def loop_body_button)
  have idle: "loop_body rd s = s" if "\<not> pressed rd" for rd
    using assms that by (rule loop_body_unarmed)
  have hi: "\<not> pressed (steady True)" and low: "pressed (steady False)"
    by (simp_all add: pressed_def steady_def)
  show ?thesis
    using reads [of rd] reads [of "steady True"] reads [of "steady False"]
      arm [of rd] arm [OF low] idle [of rd] idle [OF hi]
    by (simp add: steady_def)
qed

text \<open>
  The theorem of C9 in the initial state, for a line that is low at the first read and high
  at the second.
\<close>

theorem unarmed_tick_sampling_witness:
  "button main_init = 0 \<and> \<not> pressed (False, True)
   \<and> RD6_reads (False, True) main_init = 2
   \<and> loop_body (False, True) main_init = main_init
   \<and> button (loop_body (steady False) main_init) = 1"
proof -
  have a: "button main_init = 0"
    by (simp add: main_init_def)
  have b: "\<not> pressed (False, True)"
    by (simp add: pressed_def)
  show ?thesis
    using a b unarmed_tick_sampling [OF a, of "(False, True)"] by simp
qed

text \<open>
  Claim C9 as stated fails: the pin is not read exactly once on every unarmed tick. In the
  initial state, with the line steadily low, the tick reads it twice.
\<close>

theorem sampled_once_counterexample:
  "button main_init = 0 \<and> RD6_reads (steady False) main_init = 2"
  by (simp add: RD6_reads_def sample_button_def steady_def main_init_def)

text \<open>
  Claim C10: at every iteration boundary \<open>0 \<le> t \<le> 3000\<close>; the final \<^verbatim>\<open>else\<close> is entered
  only with \<open>t = 3000\<close>; and every \<^verbatim>\<open>t++\<close> that is executed yields the mathematical
  successor, so the 16-bit counter never wraps.
\<close>

theorem t_bounded_no_overflow:
  "0 \<le> sint (t (main_loop inp n)) \<and> sint (t (main_loop inp n)) \<le> 3000
   \<and> (reset_branch (fst (sample_button (inp n) (main_loop inp n))) \<longrightarrow>
         t (main_loop inp n) = 3000)
   \<and> (button (main_loop inp (Suc n)) = 1
       \<and> \<not> reset_branch (fst (sample_button (inp n) (main_loop inp n))) \<longrightarrow>
         sint (t (main_loop inp (Suc n))) = sint (t (main_loop inp n)) + 1)"
proof -
  let ?s = "main_loop inp n"
  let ?a = "fst (sample_button (inp n) ?s)"
  have inv: "cycle_inv ?s" by (rule cycle_inv_main_loop)
  have lo: "0 \<le> sint (t ?s)" and hi: "sint (t ?s) \<le> 3000"
    using inv by (auto simp add: cycle_inv_def split: if_splits)
  have nxt: "main_loop inp (Suc n) = blink ?a"
    by (simp add: main_loop_Suc loop_body_def)
  have only: "t ?s = 3000" if "reset_branch ?a"
  proof -
    from that lo hi have "sint (t ?s) = 3000"
      by (auto simp add: reset_branch_def word_sless_alt word_sle_eq sint_t_zero_iff)
    then show ?thesis by (simp add: t_eq_iff_sint)
  qed
  have exact: "sint (t (blink ?a)) = sint (t ?s) + 1"
    if "button (blink ?a) = 1" "\<not> reset_branch ?a"
  proof -
    from that(1) have b: "button ?a = 1" by simp
    from that(2) b lo hi have ne: "sint (t ?s) \<noteq> 3000"
      by (auto simp add: reset_branch_def word_sless_alt word_sle_eq sint_t_zero_iff)
    from lo hi have "0 \<le> sint (t ?a)" "sint (t ?a) \<le> 3000" by simp_all
    from blink_armed_t [OF b this] ne show ?thesis by simp
  qed
  show ?thesis using lo hi only exact by (simp add: nxt)
qed

text \<open>
  The theorem of C10 at ticks 3001 and 8 of the stream that holds the button down.
\<close>

theorem t_bounded_no_overflow_witness:
  "reset_branch (fst (sample_button (held_down 3000) (main_loop held_down 3000)))
   \<and> t (main_loop held_down 3000) = 3000
   \<and> button (main_loop held_down (Suc 7)) = 1
   \<and> \<not> reset_branch (fst (sample_button (held_down 7) (main_loop held_down 7)))
   \<and> sint (t (main_loop held_down (Suc 7))) = sint (t (main_loop held_down 7)) + 1"
proof -
  have b3: "button (main_loop held_down 3000) = 1"
    by (rule held_down_phase(1)) simp
  have t3: "sint (t (main_loop held_down 3000)) = 3000"
    using held_down_phase(2) [of 3000] by simp
  have r3: "reset_branch (fst (sample_button (held_down 3000) (main_loop held_down 3000)))"
    using b3 t3
    by (simp add: sample_button_idle reset_branch_def word_sless_alt word_sle_eq
        sint_t_zero_iff)
  have b7: "button (main_loop held_down 7) = 1"
    by (rule held_down_phase(1)) simp
  have b8: "button (main_loop held_down (Suc 7)) = 1"
    by (rule held_down_phase(1)) simp
  have t7: "sint (t (main_loop held_down 7)) = 7"
    using held_down_phase(2) [of 7] by simp
  have r7: "\<not> reset_branch (fst (sample_button (held_down 7) (main_loop held_down 7)))"
    using b7 t7
    by (simp add: sample_button_idle reset_branch_def word_sless_alt word_sle_eq
        sint_t_zero_iff)
  show ?thesis
    using r3 b8 r7 t_bounded_no_overflow [of held_down 3000]
      t_bounded_no_overflow [of held_down 7]
    by simp
qed

end
